theory Spec2Isabelle
  imports Complex_Main "HOL-Library.Multiset"
begin

section \<open>Python values and errors\<close>

text \<open>
  The repository is Python 2 (\<^verbatim>\<open>print\<close> statements in tmDumpCore.py), so
  \<^verbatim>\<open>len(rows) / 2\<close> is floor division on integers. The two exceptions that the
  calibration code can raise are Python's own: indexing a sequence out of range raises
  \<^verbatim>\<open>IndexError\<close>, and \<^verbatim>\<open>float(x) / float(0)\<close> raises
  \<^verbatim>\<open>ZeroDivisionError\<close>. The repository declares no exception class of its own.
\<close>

datatype py_error = IndexError | ZeroDivisionError

text \<open>The name of the exception class, as the Python traceback prints it.\<close>

fun class_name :: "py_error \<Rightarrow> string" where
  "class_name IndexError = ''IndexError''"
| "class_name ZeroDivisionError = ''ZeroDivisionError''"

text \<open>\<^verbatim>\<open>xs[i]\<close> for a non-negative index \<open>i\<close>.\<close>

definition getitem :: "'a list \<Rightarrow> nat \<Rightarrow> py_error + 'a" where
  "getitem xs i = (if i < length xs then Inr (xs ! i) else Inl IndexError)"

section \<open>Clock calibration (tmDumpTelemetry.py, get_clocks_per_second_from_rows)\<close>

text \<open>
  \<^verbatim>\<open>
  mid = len(rows) / 2
  a = rows[mid]
  b = rows[mid + 1]
  dtick = b[0] - a[0]
  dtsc = b[1] - a[1]
  clocks_per_tick = float(dtsc) / float(dtick)
  clocks_per_second = clocks_per_tick * ticks_per_second
  return clocks_per_second
  \<close>
  Each row is a pair (tick, tsc) of integers. Python floats are modelled by the reals:
  the rounding of the quotient and of the product is not part of the model.
\<close>

definition get_clocks_per_second_from_rows :: "(int \<times> int) list \<Rightarrow> real \<Rightarrow> py_error + real" where
  "get_clocks_per_second_from_rows rows ticks_per_second =
     (let mid = length rows div 2 in
      case getitem rows mid of
        Inl e \<Rightarrow> Inl e
      | Inr a \<Rightarrow>
         (case getitem rows (mid + 1) of
            Inl e \<Rightarrow> Inl e
          | Inr b \<Rightarrow>
             (let dtick = fst b - fst a;
                  dtsc = snd b - snd a
              in if dtick = 0 then Inl ZeroDivisionError
                 else (let clocks_per_tick = real_of_int dtsc / real_of_int dtick;
                           clocks_per_second = clocks_per_tick * ticks_per_second
                       in Inr clocks_per_second))))"

section \<open>The query builder (tmDumpTelemetry.py, build_query_string)\<close>

text \<open>\<^verbatim>\<open>'{i}'.format(i=i)\<close> for a non-negative integer: its decimal digits.\<close>

definition digit :: "nat \<Rightarrow> char" where
  "digit n = ''0123456789'' ! n"

fun str_nat :: "nat \<Rightarrow> string" where
  "str_nat n = (if n < 10 then [digit n] else str_nat (n div 10) @ [digit (n mod 10)])"

declare str_nat.simps [simp del]

text \<open>\<^verbatim>\<open>sep.join(xs)\<close>.\<close>

fun str_join :: "string \<Rightarrow> string list \<Rightarrow> string" where
  "str_join sep [] = []"
| "str_join sep [x] = x"
| "str_join sep (x # y # ys) = x @ sep @ str_join sep (y # ys)"

text \<open>
  \<^verbatim>\<open>
  normal_part = ', '.join(normal_columns)
  text_part = ', '.join(
      'text{i}.content AS {name}_text'.format(i=i, name=name)
      for i, name in enumerate(text_columns))
  join_clause = ' '.join(
      'LEFT JOIN tmexpandedtext AS text{i} ON text{i}.id = {col}'.format(i=i, col=column)
      for i, column in enumerate(text_columns))
  return ('SELECT {normal_part}, {text_part} FROM {table} '
          '{join_clause} '
          '{filter_clause}'.format(**vars()))
  \<close>
\<close>

definition normal_part :: "string list \<Rightarrow> string" where
  "normal_part normal_columns = str_join '', '' normal_columns"

text \<open>The two format strings, applied to an index and a column.\<close>

definition text_item :: "nat \<Rightarrow> string \<Rightarrow> string" where
  "text_item i name = ''text'' @ str_nat i @ ''.content AS '' @ name @ ''_text''"

definition join_item :: "nat \<Rightarrow> string \<Rightarrow> string" where
  "join_item i column =
     ''LEFT JOIN tmexpandedtext AS text'' @ str_nat i @ '' ON text'' @ str_nat i @ ''.id = '' @ column"

definition text_part :: "string list \<Rightarrow> string" where
  "text_part text_columns =
     str_join '', '' (map (\<lambda>(i, name). text_item i name) (enumerate 0 text_columns))"

definition join_clause :: "string list \<Rightarrow> string" where
  "join_clause text_columns =
     str_join '' '' (map (\<lambda>(i, column). join_item i column) (enumerate 0 text_columns))"

definition build_query_string :: "string \<Rightarrow> string list \<Rightarrow> string list \<Rightarrow> string \<Rightarrow> string" where
  "build_query_string table normal_columns text_columns filter_clause =
     ''SELECT '' @ normal_part normal_columns @ '', '' @ text_part text_columns
       @ '' FROM '' @ table @ '' ''
       @ join_clause text_columns @ '' ''
       @ filter_clause"

text \<open>The query of \<^verbatim>\<open>dump_zones\<close>; \<^verbatim>\<open>filter_clause\<close> takes its default \<^verbatim>\<open>''\<close>.\<close>

definition dump_zones_query :: string where
  "dump_zones_query =
     build_query_string ''tmzones''
       [''start_tsc'', ''end_tsc'', ''depth'', ''line'', ''flags'',
        ''thread_id'', ''process_id'', ''lock_ptr'']
       [''fullname_id'', ''filename_id'', ''path_id'']
       []"

text \<open>
  The keys that \<^verbatim>\<open>write_zones\<close> reads from every row of that query's cursor, in the
  order of the reads: \<^verbatim>\<open>row['fullname_id_text']\<close>, \<^verbatim>\<open>row['thread_id']\<close>,
  \<^verbatim>\<open>row['start_tsc']\<close>, \<^verbatim>\<open>row['end_tsc']\<close>, \<^verbatim>\<open>row['start_tsc']\<close>,
  \<^verbatim>\<open>row['depth']\<close>.
\<close>

definition write_zones_keys :: "string list" where
  "write_zones_keys =
     [''fullname_id_text'', ''thread_id'', ''start_tsc'', ''end_tsc'', ''start_tsc'', ''depth'']"

subsection \<open>How the store names the result columns\<close>

text \<open>
  The header that \<^verbatim>\<open>write_from_cursor\<close> emits and the keys that
  \<^verbatim>\<open>sqlite3.Row\<close> accepts are the names of the result columns. SQLite names a result
  column by its \<^verbatim>\<open>AS\<close> alias when it has one; a bare column reference is named by the
  column. The following reads these names off a statement of the shape that
  \<^verbatim>\<open>build_query_string\<close> produces: the select list runs from \<^verbatim>\<open>SELECT\<close> to the
  first \<^verbatim>\<open>FROM\<close> and its items are separated by a comma and a space.
\<close>

fun split_first :: "string \<Rightarrow> string \<Rightarrow> (string \<times> string) option" where
  "split_first pat [] = (if pat = [] then Some ([], []) else None)"
| "split_first pat (x # xs) =
     (if take (length pat) (x # xs) = pat then Some ([], drop (length pat) (x # xs))
      else (case split_first pat xs of
              None \<Rightarrow> None
            | Some (before, after) \<Rightarrow> Some (x # before, after)))"

fun split_all :: "nat \<Rightarrow> string \<Rightarrow> string \<Rightarrow> string list" where
  "split_all 0 pat s = [s]"
| "split_all (Suc fuel) pat s =
     (case split_first pat s of
        None \<Rightarrow> [s]
      | Some (before, after) \<Rightarrow> before # split_all fuel pat after)"

definition select_list :: "string \<Rightarrow> string option" where
  "select_list q =
     (if take 7 q = ''SELECT '' then map_option fst (split_first '' FROM '' (drop 7 q)) else None)"

definition result_column_name :: "string \<Rightarrow> string" where
  "result_column_name item =
     (case split_first '' AS '' item of None \<Rightarrow> item | Some (expr, alias) \<Rightarrow> alias)"

definition result_column_names :: "string \<Rightarrow> string list option" where
  "result_column_names q =
     map_option (\<lambda>sel. map result_column_name (split_all (length sel) '', '' sel)) (select_list q)"

text \<open>
  A column name that the reading above takes whole: it holds no space and no comma.
\<close>

definition plain_name :: "string \<Rightarrow> bool" where
  "plain_name s \<longleftrightarrow> CHR '' '' \<notin> set s \<and> CHR '','' \<notin> set s"

text \<open>
  A notion for the proofs about \<open>select_list\<close>, not a part of the model: the search for
  the first \<^verbatim>\<open>FROM\<close> passes over \<open>s\<close>, whatever follows it.
\<close>

definition skips :: "string \<Rightarrow> bool" where
  "skips s \<longleftrightarrow>
     (\<forall>rest. split_first '' FROM '' (s @ rest)
               = map_option (\<lambda>(b, a). (s @ b, a)) (split_first '' FROM '' rest))"

section \<open>The relational store\<close>

text \<open>
  The tables that the totals reports read, with the columns that their queries name.
  Every column holds a (non-NULL) integer, \<^verbatim>\<open>content\<close> a string. A table is a list
  of rows: SQL tables are bags, and the order of the list is the order in which a scan
  meets the rows.
\<close>

record zone =
  start_tsc :: int
  end_tsc :: int
  depth :: int
  thread_id :: int
  fullname_id :: int

record text_entry =
  text_id :: int
  content :: string

record conn =
  tmzones :: "zone list"
  tmexpandedtext :: "text_entry list"

subsection \<open>SQL values and operators\<close>

text \<open>
  A value of the store is NULL, a 64-bit integer or a floating-point number; floats are
  modelled by the reals, as in the calibration. The timestamps and ids of the tables are
  integers, and so are their differences and sums as long as these stay within 64 bits:
  the model computes them as integers, and where a theorem speaks of their values it
  assumes that range (\<open>in_range\<close> below). The product by 100000 is where a total can leave
  the range; there SQLite continues in floating point, and so does the model.
  \<^verbatim>\<open>MAX\<close> and \<^verbatim>\<open>MIN\<close> of no rows are NULL; arithmetic on NULL is NULL; the division
  of two integers truncates towards zero, and a division by zero is NULL, not an error.
\<close>

datatype sql_value = Null | Integer int | Real real

definition int64 :: "int \<Rightarrow> bool" where
  "int64 x \<longleftrightarrow> - (2 ^ 63) \<le> x \<and> x < 2 ^ 63"

fun sql_max :: "int list \<Rightarrow> int option" where
  "sql_max [] = None"
| "sql_max (x # xs) = Some (fold max xs x)"

fun sql_min :: "int list \<Rightarrow> int option" where
  "sql_min [] = None"
| "sql_min (x # xs) = Some (fold min xs x)"

definition sql_sub :: "int option \<Rightarrow> int option \<Rightarrow> int option" where
  "sql_sub a b =
     (case a of None \<Rightarrow> None
      | Some x \<Rightarrow> (case b of None \<Rightarrow> None | Some y \<Rightarrow> Some (x - y)))"

text \<open>The product of two integers: an integer if it fits, otherwise the product of the floats.\<close>

definition sql_mul :: "int \<Rightarrow> int \<Rightarrow> sql_value" where
  "sql_mul a b =
     (if int64 (a * b) then Integer (a * b) else Real (real_of_int a * real_of_int b))"

definition trunc_div :: "int \<Rightarrow> int \<Rightarrow> int" where
  "trunc_div a b = sgn a * sgn b * (\<bar>a\<bar> div \<bar>b\<bar>)"

text \<open>The quotient of a value by an integer.\<close>

definition sql_div :: "sql_value \<Rightarrow> int \<Rightarrow> sql_value" where
  "sql_div a b =
     (if b = 0 then Null
      else (case a of
              Null \<Rightarrow> Null
            | Integer i \<Rightarrow>
                (if int64 (trunc_div i b) then Integer (trunc_div i b)
                 else Real (real_of_int i / real_of_int b))
            | Real r \<Rightarrow> Real (r / real_of_int b)))"

text \<open>
  \<^verbatim>\<open>ORDER BY key DESC\<close>: the rows come back as some arrangement of the same rows in
  which the keys never increase, NULL counting as smaller than every number and numbers
  comparing by value. The order of two rows with equal keys is left to the store, so the
  clause is a relation between the rows and what the cursor yields. \<open>sort_desc\<close> is one
  arrangement that satisfies it.
\<close>

fun sql_real :: "sql_value \<Rightarrow> real option" where
  "sql_real Null = None"
| "sql_real (Integer i) = Some (real_of_int i)"
| "sql_real (Real r) = Some r"

definition sql_le :: "sql_value \<Rightarrow> sql_value \<Rightarrow> bool" where
  "sql_le a b =
     (case sql_real a of None \<Rightarrow> True
      | Some x \<Rightarrow> (case sql_real b of None \<Rightarrow> False | Some y \<Rightarrow> x \<le> y))"

definition order_by_desc :: "('a \<Rightarrow> sql_value) \<Rightarrow> 'a list \<Rightarrow> 'a list \<Rightarrow> bool" where
  "order_by_desc key rows out \<longleftrightarrow>
     mset out = mset rows \<and> sorted_wrt (\<lambda>a b. sql_le (key b) (key a)) out"

fun insert_desc :: "('a \<Rightarrow> sql_value) \<Rightarrow> 'a \<Rightarrow> 'a list \<Rightarrow> 'a list" where
  "insert_desc key x [] = [x]"
| "insert_desc key x (y # ys) =
     (if sql_le (key y) (key x) then x # y # ys else y # insert_desc key x ys)"

fun sort_desc :: "('a \<Rightarrow> sql_value) \<Rightarrow> 'a list \<Rightarrow> 'a list" where
  "sort_desc key [] = []"
| "sort_desc key (x # xs) = insert_desc key x (sort_desc key xs)"

section \<open>Inclusive totals (tmDumpTelemetry.py, dump_zone_totals)\<close>







section \<open>Exclusive totals (tmDumpTelemetry.py, dump_zone_totals_exclusive)\<close>

text \<open>\<^verbatim>\<open>SELECT MAX(end_tsc) - MIN(start_tsc) FROM tmzones\<close>\<close>

definition elapsed_tsc :: "conn \<Rightarrow> int option" where
  "elapsed_tsc cn =
     sql_sub (sql_max (map end_tsc (tmzones cn))) (sql_min (map start_tsc (tmzones cn)))"

text \<open>
  The view. \<^verbatim>\<open>do_separation_by_depth\<close> is the constant \<^verbatim>\<open>False\<close> in the source,
  so the depth clauses are empty and the view groups by \<^verbatim>\<open>fullname_id\<close> alone; its
  \<^verbatim>\<open>depth\<close> column is then read by nothing and is left out.
  \<^verbatim>\<open>
  CREATE VIEW ZoneTotals AS
  SELECT SUM(end_tsc - start_tsc) AS total_tsc, fullname_id, depth
  FROM  tmzones
  GROUP BY fullname_id
  \<close>
\<close>

record zone_total =
  total_tsc :: int
  zt_fullname_id :: int

definition ZoneTotals :: "conn \<Rightarrow> zone_total list" where
  "ZoneTotals cn =
     map (\<lambda>fid. \<lparr>total_tsc = sum_list (map (\<lambda>z. end_tsc z - start_tsc z)
                                         (filter (\<lambda>z. fullname_id z = fid) (tmzones cn))),
                  zt_fullname_id = fid\<rparr>)
         (remdups (map fullname_id (tmzones cn)))"

text \<open>
  The join condition of the self-join:
  \<^verbatim>\<open>
  (c.start_tsc BETWEEN p.start_tsc AND p.end_tsc) AND
  c.end_tsc <= p.end_tsc AND c.depth = p.depth + 1 AND c.thread_id = p.thread_id
  \<close>
\<close>

definition is_child :: "zone \<Rightarrow> zone \<Rightarrow> bool" where
  "is_child p c \<longleftrightarrow>
     (start_tsc p \<le> start_tsc c \<and> start_tsc c \<le> end_tsc p) \<and>
     end_tsc c \<le> end_tsc p \<and>
     depth c = depth p + 1 \<and>
     thread_id c = thread_id p"

text \<open>\<^verbatim>\<open>LEFT JOIN\<close>: a parent with no child keeps one row, whose child columns are NULL.\<close>

definition left_join_children :: "zone list \<Rightarrow> zone \<Rightarrow> zone option list" where
  "left_join_children zs p =
     (let cs = filter (is_child p) zs in if cs = [] then [None] else map Some cs)"

text \<open>
  \<^verbatim>\<open>
  FROM  tmzones AS p
  LEFT JOIN tmzones AS c ON ...
  JOIN  tmexpandedtext as t ON t.id = p.fullname_id
  JOIN  ZoneTotals as zt ON zt.fullname_id = p.fullname_id
  \<close>
\<close>

type_synonym joined_row = "zone \<times> zone option \<times> text_entry \<times> zone_total"

definition row_p :: "joined_row \<Rightarrow> zone" where
  "row_p r = fst r"

definition row_c :: "joined_row \<Rightarrow> zone option" where
  "row_c r = fst (snd r)"

definition row_t :: "joined_row \<Rightarrow> text_entry" where
  "row_t r = fst (snd (snd r))"

definition row_zt :: "joined_row \<Rightarrow> zone_total" where
  "row_zt r = snd (snd (snd r))"

definition rows_of_parent :: "conn \<Rightarrow> zone \<Rightarrow> joined_row list" where
  "rows_of_parent cn p =
     [(p, c, t, zt).
        c \<leftarrow> left_join_children (tmzones cn) p,
        t \<leftarrow> tmexpandedtext cn, text_id t = fullname_id p,
        zt \<leftarrow> ZoneTotals cn, zt_fullname_id zt = fullname_id p]"

definition joined_rows :: "conn \<Rightarrow> joined_row list" where
  "joined_rows cn = concat (map (rows_of_parent cn) (tmzones cn))"

text \<open>\<^verbatim>\<open>IFNULL(c.end_tsc - c.start_tsc, 0)\<close>\<close>

definition child_tsc :: "joined_row \<Rightarrow> int" where
  "child_tsc r = (case row_c r of None \<Rightarrow> 0 | Some c \<Rightarrow> end_tsc c - start_tsc c)"

text \<open>
  The two quantities that the select list scales, for a group \<open>g\<close>:
  \<^verbatim>\<open>zt.total_tsc\<close> and \<^verbatim>\<open>zt.total_tsc - SUM(IFNULL(c.end_tsc - c.start_tsc, 0))\<close>.
  \<^verbatim>\<open>zt.total_tsc\<close> and \<^verbatim>\<open>p.thread_id\<close> stand outside every aggregate: SQLite takes
  them from one row \<open>r\<close> of the group, the same row for both, and does not say which.
\<close>

definition group_total_tsc :: "joined_row \<Rightarrow> int" where
  "group_total_tsc r = total_tsc (row_zt r)"

definition group_excl_tsc :: "joined_row \<Rightarrow> joined_row list \<Rightarrow> int" where
  "group_excl_tsc r g = group_total_tsc r - sum_list (map child_tsc g)"

text \<open>\<^verbatim>\<open>x * 100000 / :elapsed_tsc\<close>\<close>

definition scaled :: "int option \<Rightarrow> int \<Rightarrow> sql_value" where
  "scaled elapsed x =
     (case elapsed of None \<Rightarrow> Null | Some e \<Rightarrow> sql_div (sql_mul x 100000) e)"

text \<open>
  \<^verbatim>\<open>
  SELECT (zt.total_tsc - SUM(IFNULL(c.end_tsc - c.start_tsc, 0)))
           * 100000 / :elapsed_tsc    AS excl,
         zt.total_tsc * 100000 / :elapsed_tsc    AS incl,
         COUNT(DISTINCT p.start_tsc)  AS num_inst,
         t.content    AS name,
         p.thread_id  AS thread,
         COUNT(*)     AS num_parts,
         MIN(p.depth) AS min_depth,
         MAX(p.depth) AS max_depth
  ...
  GROUP BY name
  ORDER BY excl DESC
  \<close>
  \<open>group_row elapsed r g\<close> is the row of the group \<open>g\<close> when the store takes the columns
  outside the aggregates from the row \<open>r\<close> of \<open>g\<close>.
\<close>

record totals_excl_row =
  excl :: sql_value
  incl :: sql_value
  num_inst :: nat
  name :: string
  thread :: int
  num_parts :: nat
  min_depth :: int
  max_depth :: int

definition group_row :: "int option \<Rightarrow> joined_row \<Rightarrow> joined_row list \<Rightarrow> totals_excl_row" where
  "group_row elapsed r g =
     \<lparr>excl = scaled elapsed (group_excl_tsc r g),
      incl = scaled elapsed (group_total_tsc r),
      num_inst = length (remdups (map (\<lambda>x. start_tsc (row_p x)) g)),
      name = content (row_t r),
      thread = thread_id (row_p r),
      num_parts = length g,
      min_depth = fold min (map (\<lambda>x. depth (row_p x)) g) (depth (row_p r)),
      max_depth = fold max (map (\<lambda>x. depth (row_p x)) g) (depth (row_p r))\<rparr>"

text \<open>\<^verbatim>\<open>GROUP BY name\<close>: the names that occur, and the joined rows of a name.\<close>

definition group_names :: "conn \<Rightarrow> string list" where
  "group_names cn = remdups (map (\<lambda>r. content (row_t r)) (joined_rows cn))"

definition name_group :: "conn \<Rightarrow> string \<Rightarrow> joined_row list" where
  "name_group cn n = filter (\<lambda>r. content (row_t r) = n) (joined_rows cn)"

text \<open>A row that the query may yield for the group of its name.\<close>

definition report_row :: "conn \<Rightarrow> totals_excl_row \<Rightarrow> bool" where
  "report_row cn row \<longleftrightarrow>
     list_ex (\<lambda>r. row = group_row (elapsed_tsc cn) r (name_group cn (name row)))
             (name_group cn (name row))"

text \<open>
  What the cursor may yield: one row for every name, each a row of its group, arranged
  by \<^verbatim>\<open>ORDER BY excl DESC\<close>.
\<close>

definition dump_zone_totals_exclusive :: "conn \<Rightarrow> totals_excl_row list \<Rightarrow> bool" where
  "dump_zone_totals_exclusive cn out \<longleftrightarrow>
     mset (map name out) = mset (group_names cn)
     \<and> list_all (report_row cn) out
     \<and> sorted_wrt (\<lambda>a b. sql_le (excl b) (excl a)) out"

text \<open>
  One such result, computed: every group gives its row with the columns outside the
  aggregates taken from the first joined row, and the rows are sorted by insertion.
\<close>

definition first_rows :: "conn \<Rightarrow> totals_excl_row list" where
  "first_rows cn =
     concat (map (\<lambda>n. case name_group cn n of
                         [] \<Rightarrow> []
                       | r # rs \<Rightarrow> [group_row (elapsed_tsc cn) r (r # rs)])
                 (group_names cn))"


subsection \<open>The totals in the words of the specification\<close>



section \<open>Example data\<close>

text \<open>
  Example 2 of the specification: A \<open>[0,100]\<close> at depth 0 and B \<open>[10,60]\<close> at depth 1 on
  the same thread, with a dictionary that names both.
\<close>

definition zone_A :: zone where
  "zone_A = \<lparr>start_tsc = 0, end_tsc = 100, depth = 0, thread_id = 1, fullname_id = 1\<rparr>"

definition zone_B :: zone where
  "zone_B = \<lparr>start_tsc = 10, end_tsc = 60, depth = 1, thread_id = 1, fullname_id = 2\<rparr>"

definition example_2 :: conn where
  "example_2 =
     \<lparr>tmzones = [zone_A, zone_B],
      tmexpandedtext = [\<lparr>text_id = 1, content = ''A''\<rparr>, \<lparr>text_id = 2, content = ''B''\<rparr>]\<rparr>"

definition row_A :: totals_excl_row where
  "row_A = \<lparr>excl = Integer 50000, incl = Integer 100000, num_inst = 1, name = ''A'',
            thread = 1, num_parts = 1, min_depth = 0, max_depth = 0\<rparr>"

definition row_B :: totals_excl_row where
  "row_B = \<lparr>excl = Integer 50000, incl = Integer 50000, num_inst = 1, name = ''B'',
            thread = 1, num_parts = 1, min_depth = 1, max_depth = 1\<rparr>"

text \<open>A capture of a single instant: one event with \<open>start = end\<close>.\<close>

definition instant_capture :: conn where
  "instant_capture =
     \<lparr>tmzones = [\<lparr>start_tsc = 5, end_tsc = 5, depth = 0, thread_id = 1, fullname_id = 1\<rparr>],
      tmexpandedtext = [\<lparr>text_id = 1, content = ''A''\<rparr>]\<rparr>"

definition row_instant :: totals_excl_row where
  "row_instant = \<lparr>excl = Null, incl = Null, num_inst = 1, name = ''A'', thread = 1,
                  num_parts = 1, min_depth = 0, max_depth = 0\<rparr>"























section \<open>Calibration: results\<close>

lemma getitem_in_range: "i < length xs \<Longrightarrow> getitem xs i = Inr (xs ! i)"
  by (simp add: getitem_def)

lemma getitem_out_of_range: "length xs \<le> i \<Longrightarrow> getitem xs i = Inl IndexError"
  by (simp add: getitem_def)

lemma calibration_index_error:
  "length rows \<le> length rows div 2 + 1 \<Longrightarrow>
   get_clocks_per_second_from_rows rows tps = Inl IndexError"
  by (simp add: get_clocks_per_second_from_rows_def getitem_def Let_def)

lemma calibration_in_range:
  assumes "length rows div 2 + 1 < length rows"
  shows "get_clocks_per_second_from_rows rows tps =
     (if fst (rows ! (length rows div 2 + 1)) = fst (rows ! (length rows div 2))
      then Inl ZeroDivisionError
      else Inr (real_of_int (snd (rows ! (length rows div 2 + 1)) - snd (rows ! (length rows div 2)))
                / real_of_int (fst (rows ! (length rows div 2 + 1)) - fst (rows ! (length rows div 2)))
                * tps))"
proof -
  from assms have "length rows div 2 < length rows" by simp
  with assms show ?thesis
    by (simp add: get_clocks_per_second_from_rows_def getitem_def Let_def)
qed


text \<open>
  Claim C2, as amended. Whenever a sample follows the one at index \<open>\<lfloor>len/2\<rfloor>\<close> and the two
  samples have different ticks, calibration returns
  \<open>(\<Delta>cycles / \<Delta>tick) * ticks_per_second\<close> for the samples at \<open>\<lfloor>len/2\<rfloor>\<close> and
  \<open>\<lfloor>len/2\<rfloor> + 1\<close>; the samples \<open>[(1,10),(2,20),(3,30),(4,40),(5,50)]\<close> with
  100 ticks per second give 1000. The order of the samples plays no part.
\<close>

theorem calibration_central_pair:
  "(length rows div 2 + 1 < length rows \<longrightarrow>
    fst (rows ! (length rows div 2 + 1)) \<noteq> fst (rows ! (length rows div 2)) \<longrightarrow>
    get_clocks_per_second_from_rows rows ticks_per_second =
      Inr (real_of_int (snd (rows ! (length rows div 2 + 1)) - snd (rows ! (length rows div 2)))
           / real_of_int (fst (rows ! (length rows div 2 + 1)) - fst (rows ! (length rows div 2)))
           * ticks_per_second))
   \<and> get_clocks_per_second_from_rows [(1,10),(2,20),(3,30),(4,40),(5,50)] 100 = Inr 1000"
proof (intro conjI impI)
  assume "length rows div 2 + 1 < length rows"
    and "fst (rows ! (length rows div 2 + 1)) \<noteq> fst (rows ! (length rows div 2))"
  then show "get_clocks_per_second_from_rows rows ticks_per_second =
      Inr (real_of_int (snd (rows ! (length rows div 2 + 1)) - snd (rows ! (length rows div 2)))
           / real_of_int (fst (rows ! (length rows div 2 + 1)) - fst (rows ! (length rows div 2)))
           * ticks_per_second)"
    by (simp add: calibration_in_range)
next
  show "get_clocks_per_second_from_rows [(1,10),(2,20),(3,30),(4,40),(5,50)] 100 = Inr 1000"
    by (simp add: get_clocks_per_second_from_rows_def getitem_def Let_def)
qed

theorem calibration_central_pair_witness:
  "length ([(4,40),(6,70),(8,100),(10,130)] :: (int \<times> int) list) div 2 + 1
     < length ([(4,40),(6,70),(8,100),(10,130)] :: (int \<times> int) list)
   \<and> fst (([(4,40),(6,70),(8,100),(10,130)] :: (int \<times> int) list) ! 3)
     \<noteq> fst (([(4,40),(6,70),(8,100),(10,130)] :: (int \<times> int) list) ! 2)
   \<and> get_clocks_per_second_from_rows [(4,40),(6,70),(8,100),(10,130)] 3 = Inr 45"
  using calibration_central_pair [of "[(4,40),(6,70),(8,100),(10,130)]" 3]
  by simp

text \<open>
  Claim C2 as stated fails: these samples are ordered by tick and one sample follows the
  midpoint, yet nothing is returned, because the two central samples share their tick.
\<close>

theorem calibration_equal_ticks_counterexample:
  "sorted (map fst ([(1,10),(2,20),(2,30)] :: (int \<times> int) list))
   \<and> length ([(1,10),(2,20),(2,30)] :: (int \<times> int) list) div 2 + 1 < length ([(1,10),(2,20),(2,30)] :: (int \<times> int) list)
   \<and> get_clocks_per_second_from_rows [(1,10),(2,20),(2,30)] 100 = Inl ZeroDivisionError"
  by (simp add: get_clocks_per_second_from_rows_def getitem_def Let_def)

text \<open>
  Claim C4, as amended. Whenever fewer than 2 samples remain from the midpoint onward
  (\<open>len - \<lfloor>len/2\<rfloor> < 2\<close>), calibration fails, and the exception is Python's
  \<^verbatim>\<open>IndexError\<close>; a single sample raises \<^verbatim>\<open>IndexError\<close>.
\<close>

theorem calibration_too_few_samples:
  "(length rows - length rows div 2 < 2 \<longrightarrow>
      get_clocks_per_second_from_rows rows ticks_per_second = Inl IndexError)
   \<and> get_clocks_per_second_from_rows [sample] ticks_per_second = Inl IndexError"
proof (intro conjI impI)
  assume "length rows - length rows div 2 < 2"
  then have "length rows \<le> length rows div 2 + 1" by arith
  then show "get_clocks_per_second_from_rows rows ticks_per_second = Inl IndexError"
    by (rule calibration_index_error)
next
  show "get_clocks_per_second_from_rows [sample] ticks_per_second = Inl IndexError"
    by (simp add: calibration_index_error)
qed

theorem calibration_too_few_samples_witness:
  "length ([(1,10),(2,20)] :: (int \<times> int) list) - length ([(1,10),(2,20)] :: (int \<times> int) list) div 2 < 2
   \<and> get_clocks_per_second_from_rows [(1,10),(2,20)] 100 = Inl IndexError"
  using calibration_too_few_samples [of "[(1,10),(2,20)]" 100]
  by simp

text \<open>
  Claim C4 as stated fails: for a single sample the exception raised is
  \<^verbatim>\<open>IndexError\<close>, whose class name is not \<^verbatim>\<open>InsufficientSamplesError\<close>.
\<close>

theorem calibration_single_sample_counterexample:
  "get_clocks_per_second_from_rows [(1,10)] 100 = Inl IndexError
   \<and> class_name IndexError \<noteq> ''InsufficientSamplesError''"
  by (simp add: get_clocks_per_second_from_rows_def getitem_def Let_def)

text \<open>
  Claim C8. With exactly 2 samples the midpoint index is 1, the read of index 2 is out of
  range and calibration fails with \<^verbatim>\<open>IndexError\<close>. Calibration escapes
  \<^verbatim>\<open>IndexError\<close> exactly when the sequence has at least \<open>\<lfloor>len/2\<rfloor> + 2\<close>
  elements, and it returns a value only then.
\<close>

theorem calibration_two_samples_index_error:
  "(length rows = 2 \<longrightarrow>
      length rows div 2 = 1
      \<and> getitem rows (length rows div 2 + 1) = Inl IndexError
      \<and> get_clocks_per_second_from_rows rows ticks_per_second = Inl IndexError)
   \<and> (get_clocks_per_second_from_rows rows ticks_per_second \<noteq> Inl IndexError
        \<longleftrightarrow> length rows div 2 + 2 \<le> length rows)
   \<and> (get_clocks_per_second_from_rows rows ticks_per_second = Inr v
        \<longrightarrow> length rows div 2 + 2 \<le> length rows)"
proof -
  have ix: "get_clocks_per_second_from_rows rows ticks_per_second = Inl IndexError"
    if "length rows \<le> length rows div 2 + 1"
    using that by (rule calibration_index_error)
  have ok: "get_clocks_per_second_from_rows rows ticks_per_second \<noteq> Inl IndexError"
    if "length rows div 2 + 1 < length rows"
    using that by (simp add: calibration_in_range)
  have two: "length rows div 2 = 1 \<and> getitem rows (length rows div 2 + 1) = Inl IndexError
      \<and> get_clocks_per_second_from_rows rows ticks_per_second = Inl IndexError"
    if "length rows = 2"
    using that by (simp add: getitem_def calibration_index_error)
  have iff: "get_clocks_per_second_from_rows rows ticks_per_second \<noteq> Inl IndexError
        \<longleftrightarrow> length rows div 2 + 2 \<le> length rows"
  proof (cases "length rows div 2 + 1 < length rows")
    case True
    then show ?thesis using ok by simp
  next
    case False
    then have "length rows \<le> length rows div 2 + 1" by simp
    then show ?thesis using ix by simp
  qed
  have ret: "length rows div 2 + 2 \<le> length rows"
    if "get_clocks_per_second_from_rows rows ticks_per_second = Inr v"
  proof -
    from that have "get_clocks_per_second_from_rows rows ticks_per_second \<noteq> Inl IndexError"
      by simp
    then show ?thesis using iff by simp
  qed
  from two iff ret show ?thesis by blast
qed

theorem calibration_two_samples_index_error_witness:
  "length ([(1,10),(2,20)] :: (int \<times> int) list) = 2
   \<and> get_clocks_per_second_from_rows [(1,10),(2,20)] 100 = Inl IndexError
   \<and> get_clocks_per_second_from_rows [(1,10),(2,20),(3,30)] 100 = Inr 1000
   \<and> length ([(1,10),(2,20),(3,30)] :: (int \<times> int) list) div 2 + 2 \<le> length ([(1,10),(2,20),(3,30)] :: (int \<times> int) list)"
proof -
  have r: "get_clocks_per_second_from_rows [(1,10),(2,20),(3,30)] 100 = Inr 1000"
    by (simp add: get_clocks_per_second_from_rows_def getitem_def Let_def)
  show ?thesis
    using calibration_two_samples_index_error [of "[(1,10),(2,20)]" 100 0]
      calibration_two_samples_index_error [of "[(1,10),(2,20),(3,30)]" 100 1000] r
    by simp
qed

section \<open>Exclusive totals: the join and its groups\<close>

lemmas agg_defs =
  joined_rows_def rows_of_parent_def group_names_def name_group_def report_row_def
  group_row_def ZoneTotals_def left_join_children_def is_child_def elapsed_tsc_def
  sql_sub_def scaled_def sql_div_def sql_mul_def trunc_div_def int64_def row_p_def row_c_def
  row_t_def row_zt_def child_tsc_def group_excl_tsc_def group_total_tsc_def

lemmas example_2_defs = example_2_def zone_A_def zone_B_def row_A_def row_B_def















section \<open>Ordering\<close>

lemma sql_le_total: "sql_le a b \<or> sql_le b a"
  by (auto simp: sql_le_def split: option.splits)

lemma sql_le_trans: "sql_le a b \<Longrightarrow> sql_le b c \<Longrightarrow> sql_le a c"
  by (auto simp: sql_le_def split: option.splits)

lemma mset_insert_desc: "mset (insert_desc key x ys) = add_mset x (mset ys)"
  by (induction ys) auto

lemma set_insert_desc: "set (insert_desc key x ys) = insert x (set ys)"
  by (induction ys) auto

lemma sorted_insert_desc:
  "sorted_wrt (\<lambda>a b. sql_le (key b) (key a)) ys \<Longrightarrow>
   sorted_wrt (\<lambda>a b. sql_le (key b) (key a)) (insert_desc key x ys)"
proof (induction ys)
  case Nil
  then show ?case by simp
next
  case (Cons y ys)
  show ?case
  proof (cases "sql_le (key y) (key x)")
    case True
    with Cons.prems show ?thesis by (auto intro: sql_le_trans)
  next
    case False
    then have "sql_le (key x) (key y)" using sql_le_total by blast
    with False Cons show ?thesis by (auto simp: set_insert_desc)
  qed
qed

lemma mset_sort_desc: "mset (sort_desc key rows) = mset rows"
  by (induction rows) (simp_all add: mset_insert_desc)

lemma sorted_sort_desc: "sorted_wrt (\<lambda>a b. sql_le (key b) (key a)) (sort_desc key rows)"
  by (induction rows) (simp_all add: sorted_insert_desc)

lemma order_by_desc_sort_desc: "order_by_desc key rows (sort_desc key rows)"
  by (simp add: order_by_desc_def mset_sort_desc sorted_sort_desc)


section \<open>The rows of the report\<close>


lemma name_group_member:
  "r \<in> set (name_group cn n) \<longleftrightarrow> r \<in> set (joined_rows cn) \<and> content (row_t r) = n"
  by (auto simp: name_group_def)

lemma report_rowE:
  assumes "report_row cn row"
  obtains r where "r \<in> set (joined_rows cn)" and "content (row_t r) = name row"
    and "row = group_row (elapsed_tsc cn) r (name_group cn (name row))"
proof -
  from assms obtain r where m: "r \<in> set (name_group cn (name row))"
    and row: "row = group_row (elapsed_tsc cn) r (name_group cn (name row))"
    unfolding report_row_def list_ex_iff by blast
  from m have "r \<in> set (joined_rows cn)" and "content (row_t r) = name row"
    by (simp_all add: name_group_member)
  then show thesis using row by (rule that)
qed

lemma report_rowI:
  assumes "r \<in> set (joined_rows cn)"
  shows "report_row cn (group_row (elapsed_tsc cn) r (name_group cn (content (row_t r))))"
proof -
  have "name (group_row (elapsed_tsc cn) r (name_group cn (content (row_t r)))) = content (row_t r)"
    by (simp add: group_row_def)
  moreover have "r \<in> set (name_group cn (content (row_t r)))"
    using assms by (simp add: name_group_member)
  ultimately show ?thesis
    unfolding report_row_def list_ex_iff by (intro bexI [of _ r]) simp_all
qed

lemma dump_rows:
  assumes "dump_zone_totals_exclusive cn out"
  shows "mset (map name out) = mset (group_names cn)"
    and "row \<in> set out \<Longrightarrow> report_row cn row"
    and "sorted_wrt (\<lambda>a b. sql_le (excl b) (excl a)) out"
    and "distinct (map name out)"
proof -
  show m: "mset (map name out) = mset (group_names cn)"
    and "sorted_wrt (\<lambda>a b. sql_le (excl b) (excl a)) out"
    using assms by (simp_all add: dump_zone_totals_exclusive_def)
  show "report_row cn row" if "row \<in> set out"
    using assms that by (simp add: dump_zone_totals_exclusive_def list_all_iff)
  have "distinct (group_names cn)" by (simp add: group_names_def)
  moreover from m have "distinct (map name out) = distinct (group_names cn)"
    by (rule mset_eq_imp_distinct_iff)
  ultimately show "distinct (map name out)" by simp
qed

lemma group_names_member:
  "n \<in> set (group_names cn) \<longleftrightarrow> (\<exists>r \<in> set (joined_rows cn). content (row_t r) = n)"
  by (auto simp: group_names_def)


lemma first_rows_names: "map name (first_rows cn) = group_names cn"
proof -
  have "map name (concat (map (\<lambda>n. case name_group cn n of
                         [] \<Rightarrow> []
                       | r # rs \<Rightarrow> [group_row (elapsed_tsc cn) r (r # rs)]) ns)) = ns"
    if "set ns \<subseteq> set (group_names cn)" for ns
    using that
  proof (induction ns)
    case Nil
    then show ?case by simp
  next
    case (Cons n ns)
    then obtain r0 where "r0 \<in> set (name_group cn n)"
      by (auto simp: group_names_member name_group_member)
    then obtain r rs where g: "name_group cn n = r # rs"
      by (cases "name_group cn n") auto
    then have "r \<in> set (name_group cn n)" by simp
    then have "content (row_t r) = n" by (simp add: name_group_member)
    with g Cons show ?case by (simp add: group_row_def)
  qed
  then show ?thesis by (simp add: first_rows_def)
qed

lemma first_rows_report: "row \<in> set (first_rows cn) \<Longrightarrow> report_row cn row"
proof -
  assume "row \<in> set (first_rows cn)"
  then have "\<exists>n \<in> set (group_names cn). row \<in> set (case name_group cn n of
                         [] \<Rightarrow> []
                       | r # rs \<Rightarrow> [group_row (elapsed_tsc cn) r (r # rs)])"
    by (simp add: first_rows_def)
  then obtain n where "row \<in> set (case name_group cn n of
                         [] \<Rightarrow> []
                       | r # rs \<Rightarrow> [group_row (elapsed_tsc cn) r (r # rs)])"
    by blast
  then obtain r rs where g: "name_group cn n = r # rs"
    and row: "row = group_row (elapsed_tsc cn) r (r # rs)"
    by (cases "name_group cn n") auto
  from g have "r \<in> set (name_group cn n)" by simp
  then have r: "r \<in> set (joined_rows cn)" and n: "content (row_t r) = n"
    by (simp_all add: name_group_member)
  from report_rowI [OF r] g n row show ?thesis by simp
qed

lemma dump_sort_first_rows:
  "dump_zone_totals_exclusive cn (sort_desc excl (first_rows cn))"
proof -
  have m: "mset (sort_desc excl (first_rows cn)) = mset (first_rows cn)"
    by (rule mset_sort_desc)
  then have "mset (map name (sort_desc excl (first_rows cn))) = mset (map name (first_rows cn))"
    by simp
  then have 1: "mset (map name (sort_desc excl (first_rows cn))) = mset (group_names cn)"
    by (simp add: first_rows_names)
  from m have "set (sort_desc excl (first_rows cn)) = set (first_rows cn)"
    by (rule mset_eq_setD)
  then have 2: "list_all (report_row cn) (sort_desc excl (first_rows cn))"
    by (simp add: list_all_iff first_rows_report)
  from 1 2 sorted_sort_desc [of excl "first_rows cn"] show ?thesis
    by (simp add: dump_zone_totals_exclusive_def)
qed

section \<open>Exclusive totals per name\<close>





lemma example_2_groups:
  "name_group example_2 n =
     (if n = ''A'' then [(zone_A, Some zone_B, \<lparr>text_id = 1, content = ''A''\<rparr>,
                          \<lparr>total_tsc = 100, zt_fullname_id = 1\<rparr>)]
      else if n = ''B'' then [(zone_B, None, \<lparr>text_id = 2, content = ''B''\<rparr>,
                               \<lparr>total_tsc = 50, zt_fullname_id = 2\<rparr>)]
      else [])"
  by (simp add: example_2_defs agg_defs)

lemma example_2_elapsed: "elapsed_tsc example_2 = Some 100"
  by (simp add: example_2_defs agg_defs)

lemma example_2_report_rows:
  "report_row example_2 row \<longleftrightarrow> row = row_A \<or> row = row_B"
proof -
  have a: "group_row (Some 100) (zone_A, Some zone_B, \<lparr>text_id = 1, content = ''A''\<rparr>,
                          \<lparr>total_tsc = 100, zt_fullname_id = 1\<rparr>)
            [(zone_A, Some zone_B, \<lparr>text_id = 1, content = ''A''\<rparr>,
                          \<lparr>total_tsc = 100, zt_fullname_id = 1\<rparr>)] = row_A"
    by (simp add: example_2_defs agg_defs)
  have b: "group_row (Some 100) (zone_B, None, \<lparr>text_id = 2, content = ''B''\<rparr>,
                               \<lparr>total_tsc = 50, zt_fullname_id = 2\<rparr>)
            [(zone_B, None, \<lparr>text_id = 2, content = ''B''\<rparr>,
                               \<lparr>total_tsc = 50, zt_fullname_id = 2\<rparr>)] = row_B"
    by (simp add: example_2_defs agg_defs)
  have na: "name row_A = ''A''" and nb: "name row_B = ''B''"
    by (simp_all add: row_A_def row_B_def)
  show ?thesis
  proof (cases "name row = ''A''")
    case True
    then have "row \<noteq> row_B" using nb by auto
    with True show ?thesis
      by (simp add: report_row_def example_2_groups example_2_elapsed a)
  next
    case False
    then have ra: "row \<noteq> row_A" using na by auto
    show ?thesis
    proof (cases "name row = ''B''")
      case True
      with False ra show ?thesis
        by (simp add: report_row_def example_2_groups example_2_elapsed b)
    next
      case nB: False
      then have "row \<noteq> row_B" using nb by auto
      with False nB ra show ?thesis
        by (simp add: report_row_def example_2_groups example_2_elapsed)
    qed
  qed
qed

lemma example_2_names: "group_names example_2 = [''A'', ''B'']"
  by (simp add: example_2_defs agg_defs)

lemma example_2_dump_A_B: "dump_zone_totals_exclusive example_2 [row_A, row_B]"
  by (simp add: dump_zone_totals_exclusive_def example_2_names example_2_report_rows)
     (simp add: row_A_def row_B_def sql_le_def)

lemma example_2_dump_B_A: "dump_zone_totals_exclusive example_2 [row_B, row_A]"
  by (simp add: dump_zone_totals_exclusive_def example_2_names example_2_report_rows)
     (simp add: row_A_def row_B_def sql_le_def)











section \<open>Scaling and elapsed time\<close>

lemma trunc_div_pos: "0 < e \<Longrightarrow> 0 \<le> a \<Longrightarrow> trunc_div a e = a div e"
  by (cases "a = 0") (simp_all add: trunc_div_def)

lemma trunc_div_neg: "0 < e \<Longrightarrow> a < 0 \<Longrightarrow> trunc_div a e = - ((- a) div e)"
  by (simp add: trunc_div_def)


lemma trunc_div_real_pos:
  assumes "0 < e" "0 \<le> a"
  shows "0 \<le> trunc_div a e" and "real_of_int (trunc_div a e) \<le> real_of_int a / real_of_int e"
proof -
  show "0 \<le> trunc_div a e"
    using assms by (simp add: trunc_div_pos pos_imp_zdiv_nonneg_iff)
  show "real_of_int (trunc_div a e) \<le> real_of_int a / real_of_int e"
    using assms by (simp add: trunc_div_pos real_of_int_div4)
qed

lemma trunc_div_real_neg:
  assumes "0 < e" "a < 0"
  shows "trunc_div a e \<le> 0" and "real_of_int a / real_of_int e \<le> real_of_int (trunc_div a e)"
proof -
  have n: "0 \<le> (- a) div e" using assms by (simp add: pos_imp_zdiv_nonneg_iff)
  then show "trunc_div a e \<le> 0" using assms by (simp add: trunc_div_neg)
  have "real_of_int ((- a) div e) \<le> real_of_int (- a) / real_of_int e"
    by (rule real_of_int_div4)
  then show "real_of_int a / real_of_int e \<le> real_of_int (trunc_div a e)"
    using assms by (simp add: trunc_div_neg)
qed

text \<open>
  A total of \<open>10^14\<close> cycles against \<open>2 * 10^14\<close> elapsed cycles: the product by 100000
  leaves the 64-bit range, and the report holds a floating-point figure.
\<close>

lemma scaled_beyond_64_bits:
  "scaled (Some 200000000000000) 100000000000000 = Real 50000"
  "scaled (Some 200000000000000) 50000000000000 = Integer 25000"
  by (simp_all add: scaled_def sql_div_def sql_mul_def trunc_div_def int64_def)

lemma scaled_None: "scaled None x = Null"
  by (simp add: scaled_def)

lemma scaled_zero_elapsed: "scaled (Some 0) x = Null"
  by (simp add: scaled_def sql_div_def)


text \<open>The numeric value of a scaled total, for a positive divisor.\<close>

lemma sql_real_scaled:
  assumes "0 < e"
  shows "sql_real (scaled (Some e) x) =
     Some (if int64 (x * 100000) \<and> int64 (trunc_div (x * 100000) e)
           then real_of_int (trunc_div (x * 100000) e)
           else real_of_int (x * 100000) / real_of_int e)"
  using assms by (simp add: scaled_def sql_div_def sql_mul_def)

lemma scaled_value_bounds:
  assumes "0 < e"
  obtains v where "sql_real (scaled (Some e) x) = Some v"
    and "0 \<le> x \<Longrightarrow> 0 \<le> v \<and> v \<le> real_of_int (x * 100000) / real_of_int e"
    and "x < 0 \<Longrightarrow> real_of_int (x * 100000) / real_of_int e \<le> v \<and> v \<le> 0"
proof -
  let ?p = "x * 100000"
  let ?v = "if int64 ?p \<and> int64 (trunc_div ?p e)
           then real_of_int (trunc_div ?p e) else real_of_int ?p / real_of_int e"
  have 1: "sql_real (scaled (Some e) x) = Some ?v" using assms by (rule sql_real_scaled)
  have 2: "0 \<le> ?v \<and> ?v \<le> real_of_int ?p / real_of_int e" if "0 \<le> x"
  proof -
    from that have p: "0 \<le> ?p" by simp
    have "0 \<le> real_of_int ?p / real_of_int e" using p assms by simp
    with trunc_div_real_pos [OF assms p] show ?thesis by auto
  qed
  have 3: "real_of_int ?p / real_of_int e \<le> ?v \<and> ?v \<le> 0" if "x < 0"
  proof -
    from that have p: "?p < 0" by simp
    have "real_of_int ?p / real_of_int e \<le> 0" using p assms by (simp add: divide_nonpos_pos)
    with trunc_div_real_neg [OF assms p] show ?thesis by auto
  qed
  from 1 2 3 show thesis by (rule that)
qed







section \<open>Exclusive against inclusive\<close>

















section \<open>Degenerate inputs\<close>

lemma report_row_zero_elapsed:
  assumes "elapsed_tsc cn = Some 0" "report_row cn row"
  shows "excl row = Null \<and> incl row = Null"
proof -
  from assms(2) obtain r where
    eq: "row = group_row (elapsed_tsc cn) r (name_group cn (name row))"
    by (rule report_rowE)
  have "excl row = scaled (elapsed_tsc cn) (group_excl_tsc r (name_group cn (name row)))"
    and "incl row = scaled (elapsed_tsc cn) (group_total_tsc r)"
    by (subst eq, simp add: group_row_def)+
  with assms(1) show ?thesis by (simp add: scaled_zero_elapsed)
qed

text \<open>
  Claim C3, as amended. When the two central samples share their tick, calibration fails
  with \<^verbatim>\<open>ZeroDivisionError\<close>. When the elapsed cycles are zero, the exclusive-totals
  report does not fail: it yields its rows, and \<open>excl\<close> and \<open>incl\<close> are NULL in every
  one of them.
\<close>

theorem degenerate_inputs:
  "(length rows div 2 + 1 < length rows \<longrightarrow>
    fst (rows ! (length rows div 2 + 1)) = fst (rows ! (length rows div 2)) \<longrightarrow>
      get_clocks_per_second_from_rows rows ticks_per_second = Inl ZeroDivisionError)
   \<and> (elapsed_tsc cn = Some 0 \<longrightarrow>
        dump_zone_totals_exclusive cn (sort_desc excl (first_rows cn))
      \<and> (\<forall>out. dump_zone_totals_exclusive cn out \<longrightarrow>
            (\<forall>row \<in> set out. excl row = Null \<and> incl row = Null)))"
proof (intro conjI impI allI ballI)
  assume "length rows div 2 + 1 < length rows"
    and "fst (rows ! (length rows div 2 + 1)) = fst (rows ! (length rows div 2))"
  then show "get_clocks_per_second_from_rows rows ticks_per_second = Inl ZeroDivisionError"
    by (simp add: calibration_in_range)
next
  show "dump_zone_totals_exclusive cn (sort_desc excl (first_rows cn))"
    by (rule dump_sort_first_rows)
next
  fix out row
  assume e: "elapsed_tsc cn = Some 0" and d: "dump_zone_totals_exclusive cn out"
    and r: "row \<in> set out"
  from d r have "report_row cn row" by (rule dump_rows(2))
  with e show "excl row = Null" and "incl row = Null"
    using report_row_zero_elapsed by blast+
qed

lemma instant_elapsed: "elapsed_tsc instant_capture = Some 0"
  by (simp add: instant_capture_def elapsed_tsc_def sql_sub_def)

lemma instant_first_rows: "first_rows instant_capture = [row_instant]"
  by (simp add: first_rows_def instant_capture_def row_instant_def agg_defs)

lemma instant_dump: "dump_zone_totals_exclusive instant_capture [row_instant]"
  using dump_sort_first_rows [of instant_capture] by (simp add: instant_first_rows)

theorem degenerate_inputs_witness:
  "length ([(1,10),(2,20),(2,30)] :: (int \<times> int) list) div 2 + 1
     < length ([(1,10),(2,20),(2,30)] :: (int \<times> int) list)
   \<and> get_clocks_per_second_from_rows [(1,10),(2,20),(2,30)] 100 = Inl ZeroDivisionError
   \<and> elapsed_tsc instant_capture = Some 0
   \<and> dump_zone_totals_exclusive instant_capture [row_instant]
   \<and> excl row_instant = Null \<and> incl row_instant = Null"
proof -
  have s: "sort_desc excl (first_rows instant_capture) = [row_instant]"
    by (simp add: instant_first_rows)
  have d: "dump_zone_totals_exclusive instant_capture [row_instant]"
    using degenerate_inputs [of "[]" 0 instant_capture] instant_elapsed s by simp
  have n: "excl row_instant = Null \<and> incl row_instant = Null"
    using degenerate_inputs [of "[]" 0 instant_capture] instant_elapsed d by simp
  have c: "get_clocks_per_second_from_rows [(1,10),(2,20),(2,30)] 100 = Inl ZeroDivisionError"
    using degenerate_inputs [of "[(1,10),(2,20),(2,30)]" 100 instant_capture] by simp
  from c instant_elapsed d n show ?thesis by simp
qed

text \<open>
  Claim C3 as stated fails: for a capture of a single instant the elapsed cycles are zero
  and the report is produced, with NULL for both ratios; and the exception of a zero tick
  delta is \<^verbatim>\<open>ZeroDivisionError\<close>, not \<^verbatim>\<open>DegenerateCalibrationError\<close>.
\<close>

theorem zero_elapsed_counterexample:
  "elapsed_tsc instant_capture = Some 0
   \<and> dump_zone_totals_exclusive instant_capture [row_instant]
   \<and> excl row_instant = Null \<and> incl row_instant = Null
   \<and> get_clocks_per_second_from_rows [(1,10),(2,20),(2,30)] 100 = Inl ZeroDivisionError
   \<and> class_name ZeroDivisionError \<noteq> ''DegenerateCalibrationError''"
proof -
  have "excl row_instant = Null \<and> incl row_instant = Null"
    by (simp add: row_instant_def)
  moreover have "get_clocks_per_second_from_rows [(1,10),(2,20),(2,30)] 100 = Inl ZeroDivisionError"
    by (simp add: get_clocks_per_second_from_rows_def getitem_def Let_def)
  ultimately show ?thesis using instant_elapsed instant_dump by simp
qed

section \<open>The order of the report\<close>

text \<open>
  Claim C7, as amended. The report always yields a result; whatever it yields holds one
  row for each name, a row of that name's group, arranged so that \<open>excl\<close> never increases
  from a row to a later one (NULL counting as smallest). The query names no second key,
  so the order of rows with equal \<open>excl\<close> is not determined.
\<close>

theorem report_ordered_by_excl:
  "dump_zone_totals_exclusive cn (sort_desc excl (first_rows cn))
   \<and> (dump_zone_totals_exclusive cn out \<longrightarrow>
         mset (map name out) = mset (group_names cn)
       \<and> list_all (report_row cn) out
       \<and> distinct (map name out)
       \<and> (\<forall>i j. i < j \<longrightarrow> j < length out \<longrightarrow> sql_le (excl (out ! j)) (excl (out ! i))))"
proof (intro conjI impI)
  show "dump_zone_totals_exclusive cn (sort_desc excl (first_rows cn))"
    by (rule dump_sort_first_rows)
next
  assume d: "dump_zone_totals_exclusive cn out"
  then show "mset (map name out) = mset (group_names cn)"
    and "list_all (report_row cn) out"
    by (simp_all add: dump_zone_totals_exclusive_def)
  from d show "distinct (map name out)"
    by (rule dump_rows(4))
  from d have "sorted_wrt (\<lambda>a b. sql_le (excl b) (excl a)) out"
    by (rule dump_rows(3))
  then show "\<forall>i j. i < j \<longrightarrow> j < length out \<longrightarrow> sql_le (excl (out ! j)) (excl (out ! i))"
    by (simp add: sorted_wrt_iff_nth_less)
qed

theorem report_ordered_by_excl_witness:
  "dump_zone_totals_exclusive example_2 [row_B, row_A]
   \<and> mset (map name [row_B, row_A]) = mset (group_names example_2)
   \<and> distinct (map name [row_B, row_A])
   \<and> sql_le (excl ([row_B, row_A] ! 1)) (excl ([row_B, row_A] ! 0))"
proof -
  have "(0::nat) < 1" and "1 < length [row_B, row_A]" by simp_all
  with report_ordered_by_excl [of example_2 "[row_B, row_A]"] example_2_dump_B_A
  show ?thesis by blast
qed

text \<open>
  Claim C7 as stated fails: rows A and B of Example 2 have the same \<open>excl\<close>, and the
  report may yield them as A, B as well as B, A; names do not decide the tie.
\<close>

theorem tie_order_counterexample:
  "dump_zone_totals_exclusive example_2 [row_A, row_B]
   \<and> dump_zone_totals_exclusive example_2 [row_B, row_A]
   \<and> excl row_A = excl row_B
   \<and> name row_A = ''A'' \<and> name row_B = ''B''"
  using example_2_dump_A_B example_2_dump_B_A by (simp add: row_A_def row_B_def)

section \<open>Events without a name\<close>














section \<open>The query builder: the select list and its column names\<close>

lemma digit_in_digits: "n < 10 \<Longrightarrow> digit n \<in> set ''0123456789''"
  unfolding digit_def by (rule nth_mem) simp

lemma str_nat_digits: "set (str_nat n) \<subseteq> set ''0123456789''"
proof (induction n rule: str_nat.induct)
  case (1 n)
  show ?case
  proof (cases "n < 10")
    case True
    then show ?thesis using digit_in_digits [of n] by (subst str_nat.simps) simp
  next
    case False
    then have "set (str_nat (n div 10)) \<subseteq> set ''0123456789''" by (rule "1.IH")
    moreover have "digit (n mod 10) \<in> set ''0123456789''" by (rule digit_in_digits) simp
    ultimately show ?thesis using False by (subst str_nat.simps) simp
  qed
qed

lemma str_nat_no_space: "CHR '' '' \<notin> set (str_nat n)"
  using str_nat_digits [of n] by auto

lemma str_nat_no_comma: "CHR '','' \<notin> set (str_nat n)"
  using str_nat_digits [of n] by auto

lemma split_first_skip:
  "c \<notin> set w \<Longrightarrow>
   split_first (c # p) (w @ rest) = map_option (\<lambda>(b, a). (w @ b, a)) (split_first (c # p) rest)"
proof (induction w)
  case Nil
  show ?case by (cases "split_first (c # p) rest") auto
next
  case (Cons x w)
  then have "x \<noteq> c" and IH: "split_first (c # p) (w @ rest)
      = map_option (\<lambda>(b, a). (w @ b, a)) (split_first (c # p) rest)"
    by auto
  then show ?case by (cases "split_first (c # p) rest") auto
qed

lemma split_first_here: "split_first (c # p) (c # p @ rest) = Some ([], rest)"
  by simp

lemma split_first_none: "c \<notin> set w \<Longrightarrow> split_first (c # p) w = None"
  using split_first_skip [of c w p "[]"] by simp

lemma split_first_word: "c \<notin> set w \<Longrightarrow> split_first (c # p) (w @ c # p @ rest) = Some (w, rest)"
  using split_first_skip [of c w p "c # p @ rest"] by (simp del: split_first.simps add: split_first_here)


lemma skips_append: "skips a \<Longrightarrow> skips b \<Longrightarrow> skips (a @ b)"
proof -
  assume a: "skips a" and b: "skips b"
  have "split_first '' FROM '' ((a @ b) @ rest)
      = map_option (\<lambda>(x, y). ((a @ b) @ x, y)) (split_first '' FROM '' rest)" for rest
  proof -
    have "split_first '' FROM '' (a @ (b @ rest))
        = map_option (\<lambda>(x, y). (a @ x, y)) (split_first '' FROM '' (b @ rest))"
      using a unfolding skips_def by blast
    also have "split_first '' FROM '' (b @ rest)
        = map_option (\<lambda>(x, y). (b @ x, y)) (split_first '' FROM '' rest)"
      using b unfolding skips_def by blast
    finally show ?thesis
      by (cases "split_first '' FROM '' rest") auto
  qed
  then show ?thesis unfolding skips_def by blast
qed

lemma skips_word: "CHR '' '' \<notin> set w \<Longrightarrow> skips w"
  unfolding skips_def using split_first_skip [of "CHR '' ''" w "''FROM ''"] by simp

lemma split_first_mismatch:
  "take (length p) rest \<noteq> p \<Longrightarrow>
   split_first (c # p) (c # rest) = map_option (\<lambda>(b, a). (c # b, a)) (split_first (c # p) rest)"
  by (cases "split_first (c # p) rest") auto

lemma skips_space:
  assumes "\<And>rest. take 5 (w @ rest) \<noteq> ''FROM ''" and "skips w"
  shows "skips (CHR '' '' # w)"
proof -
  have "split_first '' FROM '' ((CHR '' '' # w) @ rest)
      = map_option (\<lambda>(x, y). ((CHR '' '' # w) @ x, y)) (split_first '' FROM '' rest)" for rest
  proof -
    have w: "split_first '' FROM '' (w @ rest)
        = map_option (\<lambda>(x, y). (w @ x, y)) (split_first '' FROM '' rest)"
      using assms(2) unfolding skips_def by blast
    have "length ''FROM '' = 5" by simp
    with assms(1) [of rest] have "take (length ''FROM '') (w @ rest) \<noteq> ''FROM ''" by metis
    then have "split_first (CHR '' '' # ''FROM '') (CHR '' '' # (w @ rest))
        = map_option (\<lambda>(b, a). (CHR '' '' # b, a)) (split_first (CHR '' '' # ''FROM '') (w @ rest))"
      by (rule split_first_mismatch)
    with w show ?thesis
      by (cases "split_first '' FROM '' rest") (auto simp del: split_first.simps)
  qed
  then show ?thesis unfolding skips_def by blast
qed

lemma no_from_long:
  assumes "CHR '' '' \<notin> set w" "5 \<le> length w"
  shows "take 5 (w @ rest) \<noteq> ''FROM ''"
proof
  assume "take 5 (w @ rest) = ''FROM ''"
  with assms(2) have "take 5 w = ''FROM ''" by simp
  then have "CHR '' '' \<in> set (take 5 w)" by simp
  then have "CHR '' '' \<in> set w" by (rule in_set_takeD)
  with assms(1) show False by simp
qed

lemma no_from_comma:
  assumes "CHR '' '' \<notin> set n"
  shows "take 5 ((n @ '','') @ rest) \<noteq> ''FROM ''"
proof (cases "5 \<le> length n")
  case True
  with assms show ?thesis using no_from_long [of n "'','' @ rest"] by simp
next
  case False
  show ?thesis
  proof
    assume eq: "take 5 ((n @ '','') @ rest) = ''FROM ''"
    from False have "take 5 ((n @ '','') @ rest) = n @ CHR '','' # take (4 - length n) rest"
      by (simp add: take_Cons')
    with eq have "CHR '','' \<in> set ''FROM ''"
      by (metis in_set_conv_decomp)
    then show False by simp
  qed
qed

lemma no_from_head:
  assumes "w \<noteq> []" "hd w \<noteq> CHR ''F''"
  shows "take 5 (w @ rest) \<noteq> ''FROM ''"
proof (cases w)
  case Nil
  with assms show ?thesis by simp
next
  case (Cons x xs)
  with assms show ?thesis by simp
qed


lemma text_part_items:
  "text_part ts = str_join '', '' (map (\<lambda>(i, nm). text_item i nm) (enumerate 0 ts))"
  by (simp add: text_part_def)

lemma skips_text_ref: "skips (CHR '' '' # ''text'' @ str_nat i @ ''.content'')"
proof (rule skips_space)
  show "take 5 ((''text'' @ str_nat i @ ''.content'') @ rest) \<noteq> ''FROM ''" for rest
    by (rule no_from_head) simp_all
  show "skips (''text'' @ str_nat i @ ''.content'')"
    by (rule skips_word) (simp add: str_nat_no_space)
qed

lemma skips_AS: "skips '' AS''"
proof -
  have "skips (CHR '' '' # ''AS'')"
  proof (rule skips_space)
    show "take 5 (''AS'' @ rest) \<noteq> ''FROM ''" for rest
      by (rule no_from_head) simp_all
    show "skips ''AS''" by (rule skips_word) simp
  qed
  then show ?thesis by simp
qed

lemma skips_alias: "CHR '' '' \<notin> set nm \<Longrightarrow> CHR '' '' \<notin> set sfx \<Longrightarrow>
  skips (CHR '' '' # nm @ ''_text'' @ sfx)"
proof (rule skips_space)
  assume a: "CHR '' '' \<notin> set nm" "CHR '' '' \<notin> set sfx"
  then have ns: "CHR '' '' \<notin> set (nm @ ''_text'' @ sfx)" by simp
  show "take 5 ((nm @ ''_text'' @ sfx) @ rest) \<noteq> ''FROM ''" for rest
    using ns by (rule no_from_long) simp
  show "skips (nm @ ''_text'' @ sfx)" using ns by (rule skips_word)
qed

lemma space_text_item:
  "CHR '' '' # text_item i nm @ sfx
   = (CHR '' '' # ''text'' @ str_nat i @ ''.content'') @ '' AS'' @ (CHR '' '' # nm @ ''_text'' @ sfx)"
  by (simp add: text_item_def)

lemma skips_text_item:
  assumes "CHR '' '' \<notin> set nm" "CHR '' '' \<notin> set sfx"
  shows "skips (CHR '' '' # text_item i nm @ sfx)"
  unfolding space_text_item
  by (intro skips_append skips_text_ref skips_AS skips_alias assms)

lemma skips_text_items:
  assumes "ts \<noteq> []" "\<forall>nm \<in> set ts. CHR '' '' \<notin> set nm"
  shows "skips (CHR '' '' # str_join '', '' (map (\<lambda>(i, nm). text_item i nm) (enumerate i ts)))"
  using assms
proof (induction ts arbitrary: i)
  case Nil
  then show ?case by simp
next
  case (Cons t ts)
  show ?case
  proof (cases ts)
    case Nil
    have "skips (CHR '' '' # text_item i t @ [])"
      using Cons.prems by (intro skips_text_item) simp_all
    with Nil show ?thesis by simp
  next
    case (Cons t' ts')
    have a: "skips (CHR '' '' # text_item i t @ '','')"
      using Cons.prems by (intro skips_text_item) simp_all
    have b: "skips (CHR '' '' # str_join '', '' (map (\<lambda>(i, nm). text_item i nm) (enumerate (Suc i) ts)))"
      using Cons.prems Cons by (intro Cons.IH) simp_all
    have "CHR '' '' # str_join '', '' (map (\<lambda>(i, nm). text_item i nm) (enumerate i (t # ts)))
        = (CHR '' '' # text_item i t @ '','')
          @ (CHR '' '' # str_join '', '' (map (\<lambda>(i, nm). text_item i nm) (enumerate (Suc i) ts)))"
      using Cons by simp
    with skips_append [OF a b] show ?thesis by simp
  qed
qed

lemma skips_comma_word: "CHR '' '' \<notin> set n \<Longrightarrow> skips (CHR '' '' # n @ '','')"
proof (rule skips_space)
  assume a: "CHR '' '' \<notin> set n"
  show "take 5 ((n @ '','') @ rest) \<noteq> ''FROM ''" for rest
    using a by (rule no_from_comma)
  show "skips (n @ '','')" using a by (intro skips_word) simp
qed

lemma skips_space_normal:
  assumes "ns \<noteq> []" "\<forall>n \<in> set ns. CHR '' '' \<notin> set n" "skips (CHR '' '' # z)"
  shows "skips (CHR '' '' # str_join '', '' ns @ '', '' @ z)"
  using assms(1,2)
proof (induction ns)
  case Nil
  then show ?case by simp
next
  case (Cons n ns)
  have a: "skips (CHR '' '' # n @ '','')"
    using Cons.prems by (intro skips_comma_word) simp
  show ?case
  proof (cases ns)
    case Nil
    have "CHR '' '' # str_join '', '' [n] @ '', '' @ z = (CHR '' '' # n @ '','') @ (CHR '' '' # z)"
      by simp
    with skips_append [OF a assms(3)] Nil show ?thesis by simp
  next
    case (Cons n' ns')
    have b: "skips (CHR '' '' # str_join '', '' ns @ '', '' @ z)"
      using Cons.prems Cons by (intro Cons.IH) simp_all
    have "CHR '' '' # str_join '', '' (n # ns) @ '', '' @ z
        = (CHR '' '' # n @ '','') @ (CHR '' '' # str_join '', '' ns @ '', '' @ z)"
      using Cons by simp
    with skips_append [OF a b] show ?thesis by simp
  qed
qed

lemma skips_normal:
  assumes "ns \<noteq> []" "\<forall>n \<in> set ns. CHR '' '' \<notin> set n" "skips (CHR '' '' # z)"
  shows "skips (str_join '', '' ns @ '', '' @ z)"
proof (cases ns)
  case Nil
  with assms(1) show ?thesis by simp
next
  case (Cons n ns')
  from assms(2) Cons have a: "skips (n @ '','')" by (intro skips_word) simp
  show ?thesis
  proof (cases ns')
    case Nil
    have "str_join '', '' [n] @ '', '' @ z = (n @ '','') @ (CHR '' '' # z)" by simp
    with skips_append [OF a assms(3)] Nil Cons show ?thesis by simp
  next
    case (Cons n' ns'')
    have b: "skips (CHR '' '' # str_join '', '' ns' @ '', '' @ z)"
      using assms(2,3) Cons \<open>ns = n # ns'\<close> by (intro skips_space_normal) simp_all
    have "str_join '', '' (n # ns') @ '', '' @ z
        = (n @ '','') @ (CHR '' '' # str_join '', '' ns' @ '', '' @ z)"
      using Cons by simp
    with skips_append [OF a b] \<open>ns = n # ns'\<close> show ?thesis by simp
  qed
qed

lemma select_list_build_query_string:
  assumes "ns \<noteq> []" "ts \<noteq> []" "\<forall>n \<in> set (ns @ ts). CHR '' '' \<notin> set n"
  shows "select_list (build_query_string table ns ts flt)
     = Some (normal_part ns @ '', '' @ text_part ts)"
proof -
  have "skips (CHR '' '' # text_part ts)"
    unfolding text_part_items using assms by (intro skips_text_items) simp_all
  then have "skips (normal_part ns @ '', '' @ text_part ts)"
    unfolding normal_part_def using assms by (intro skips_normal) simp_all
  then have "split_first '' FROM '' ((normal_part ns @ '', '' @ text_part ts) @ '' FROM '' @ r)
      = Some (normal_part ns @ '', '' @ text_part ts, r)" for r
    unfolding skips_def by (simp del: split_first.simps add: split_first_here [of "CHR '' ''" "''FROM ''", simplified])
  from this [of "table @ '' '' @ join_clause ts @ '' '' @ flt"]
  show ?thesis
    by (simp add: select_list_def build_query_string_def del: split_first.simps)
qed


lemma str_join_append:
  "xs \<noteq> [] \<Longrightarrow> ys \<noteq> [] \<Longrightarrow> str_join sep (xs @ ys) = str_join sep xs @ sep @ str_join sep ys"
proof (induction xs)
  case Nil
  then show ?case by simp
next
  case (Cons x xs)
  show ?case
  proof (cases xs)
    case Nil
    with Cons.prems show ?thesis by (cases ys) simp_all
  next
    case (Cons x' xs')
    with Cons.IH Cons.prems show ?thesis by simp
  qed
qed

lemma length_str_join: "length items \<le> Suc (length (str_join '', '' items))"
  by (induction "'', ''" items rule: str_join.induct) simp_all

lemma split_all_join:
  assumes "items \<noteq> []" "\<forall>x \<in> set items. CHR '','' \<notin> set x" "length items \<le> Suc fuel"
  shows "split_all fuel '', '' (str_join '', '' items) = items"
  using assms
proof (induction items arbitrary: fuel)
  case Nil
  then show ?case by simp
next
  case (Cons x xs)
  from Cons.prems have nc: "CHR '','' \<notin> set x" by simp
  show ?case
  proof (cases xs)
    case Nil
    have "split_first '', '' x = None"
      using split_first_none [OF nc, of "'' ''"] by simp
    with Nil show ?thesis by (cases fuel) simp_all
  next
    case (Cons y ys)
    with Cons.prems obtain f where f: "fuel = Suc f" and len: "length xs \<le> Suc f"
      by (cases fuel) auto
    have "split_first '', '' (x @ '', '' @ str_join '', '' xs) = Some (x, str_join '', '' xs)"
      using split_first_word [OF nc, of "'' ''" "str_join '', '' xs"] by simp
    moreover have "split_all f '', '' (str_join '', '' xs) = xs"
      using Cons.prems Cons len by (intro Cons.IH) simp_all
    ultimately show ?thesis using Cons f by (simp del: split_first.simps)
  qed
qed

lemma text_item_no_comma: "CHR '','' \<notin> set nm \<Longrightarrow> CHR '','' \<notin> set (text_item i nm)"
  by (simp add: text_item_def str_nat_no_comma)

lemma result_column_name_text_item: "result_column_name (text_item i nm) = nm @ ''_text''"
proof -
  have "CHR '' '' \<notin> set (''text'' @ str_nat i @ ''.content'')"
    by (simp add: str_nat_no_space)
  from split_first_word [OF this, of "''AS ''" "nm @ ''_text''"]
  have "split_first '' AS '' (text_item i nm) = Some (''text'' @ str_nat i @ ''.content'', nm @ ''_text'')"
    by (simp add: text_item_def del: split_first.simps)
  then show ?thesis by (simp add: result_column_name_def del: split_first.simps)
qed

lemma result_column_name_plain: "CHR '' '' \<notin> set n \<Longrightarrow> result_column_name n = n"
  using split_first_none [of "CHR '' ''" n "''AS ''"]
  by (simp add: result_column_name_def del: split_first.simps)

lemma map_text_items:
  "map result_column_name (map (\<lambda>(i, nm). text_item i nm) (enumerate i ts))
   = map (\<lambda>nm. nm @ ''_text'') ts"
  by (induction ts arbitrary: i) (simp_all add: result_column_name_text_item)

lemma result_column_names_build_query_string:
  assumes ns: "ns \<noteq> []" and ts: "ts \<noteq> []"
    and pl: "\<forall>n \<in> set (ns @ ts). plain_name n"
  shows "result_column_names (build_query_string table ns ts flt)
     = Some (ns @ map (\<lambda>nm. nm @ ''_text'') ts)"
proof -
  let ?items = "ns @ map (\<lambda>(i, nm). text_item i nm) (enumerate 0 ts)"
  from pl have sp: "\<forall>n \<in> set (ns @ ts). CHR '' '' \<notin> set n"
    and cm: "\<forall>n \<in> set (ns @ ts). CHR '','' \<notin> set n"
    by (auto simp: plain_name_def)
  have sel: "select_list (build_query_string table ns ts flt)
      = Some (normal_part ns @ '', '' @ text_part ts)"
    using ns ts sp by (rule select_list_build_query_string)
  have en: "enumerate 0 ts \<noteq> []"
    using ts by (cases ts) simp_all
  have j: "normal_part ns @ '', '' @ text_part ts = str_join '', '' ?items"
    unfolding normal_part_def text_part_items using ns en
    by (subst str_join_append) simp_all
  have nc: "\<forall>x \<in> set ?items. CHR '','' \<notin> set x"
    using cm by (auto simp: in_set_enumerate_eq text_item_no_comma)
  have "split_all (length (str_join '', '' ?items)) '', '' (str_join '', '' ?items) = ?items"
    using ns nc length_str_join [of ?items] by (intro split_all_join) simp_all
  moreover have "map result_column_name ?items = ns @ map (\<lambda>nm. nm @ ''_text'') ts"
  proof -
    have "map result_column_name ns = ns"
      using sp by (induction ns) (simp_all add: result_column_name_plain)
    then show ?thesis
      using map_text_items [of 0 ts] by (simp del: map_map)
  qed
  ultimately show ?thesis
    unfolding result_column_names_def sel j by simp
qed

section \<open>The query builder: results\<close>

lemma str_nat_small:
  "str_nat 0 = ''0''" "str_nat (Suc 0) = ''1''" "str_nat (Suc (Suc 0)) = ''2''"
  by (simp_all add: str_nat.simps digit_def)

lemmas query_defs =
  build_query_string_def normal_part_def text_part_def join_clause_def text_item_def
  join_item_def

lemma build_query_string_doctest:
  "build_query_string ''myTable'' [''col1'', ''col2''] [''textCol1'', ''textCol2''] ''filter''
   = ''SELECT col1, col2, text0.content AS textCol1_text, text1.content AS textCol2_text FROM myTable LEFT JOIN tmexpandedtext AS text0 ON text0.id = textCol1 LEFT JOIN tmexpandedtext AS text1 ON text1.id = textCol2 filter''"
  by (simp add: query_defs str_nat_small)

lemma dump_zones_header:
  "result_column_names dump_zones_query =
     Some [''start_tsc'', ''end_tsc'', ''depth'', ''line'', ''flags'', ''thread_id'',
           ''process_id'', ''lock_ptr'', ''fullname_id_text'', ''filename_id_text'',
           ''path_id_text'']"
  unfolding dump_zones_query_def
  by (subst result_column_names_build_query_string) (simp_all add: plain_name_def)

text \<open>
  Claim C9. Each text column is selected under its own name with \<^verbatim>\<open>_text\<close> appended,
  which is never the name itself. For non-empty lists of column names without spaces and
  commas, the result columns of the built statement are the plain columns followed by
  the renamed text columns, in the given order. In the query of \<^verbatim>\<open>dump_zones\<close> the
  column of \<^verbatim>\<open>fullname_id\<close> is therefore \<^verbatim>\<open>fullname_id_text\<close>, the key that
  \<^verbatim>\<open>write_zones\<close> reads first.
\<close>

theorem text_columns_renamed:
  "result_column_name (text_item i column) = column @ ''_text''
   \<and> column @ ''_text'' \<noteq> column
   \<and> text_part text_columns
       = str_join '', '' (map (\<lambda>(i, column). text_item i column) (enumerate 0 text_columns))
   \<and> (normal_columns \<noteq> [] \<longrightarrow> text_columns \<noteq> [] \<longrightarrow>
       (\<forall>n \<in> set (normal_columns @ text_columns). plain_name n) \<longrightarrow>
         result_column_names (build_query_string table normal_columns text_columns filter_clause)
           = Some (normal_columns @ map (\<lambda>column. column @ ''_text'') text_columns))
   \<and> result_column_names dump_zones_query =
        Some [''start_tsc'', ''end_tsc'', ''depth'', ''line'', ''flags'', ''thread_id'',
              ''process_id'', ''lock_ptr'', ''fullname_id_text'', ''filename_id_text'',
              ''path_id_text'']
   \<and> hd write_zones_keys = ''fullname_id_text''"
proof (intro conjI impI)
  show "result_column_name (text_item i column) = column @ ''_text''"
    by (rule result_column_name_text_item)
  show "column @ ''_text'' \<noteq> column" by simp
  show "text_part text_columns
       = str_join '', '' (map (\<lambda>(i, column). text_item i column) (enumerate 0 text_columns))"
    by (rule text_part_items)
  show "result_column_names (build_query_string table normal_columns text_columns filter_clause)
           = Some (normal_columns @ map (\<lambda>column. column @ ''_text'') text_columns)"
    if "normal_columns \<noteq> []" "text_columns \<noteq> []"
      "\<forall>n \<in> set (normal_columns @ text_columns). plain_name n"
    using that by (rule result_column_names_build_query_string)
  show "result_column_names dump_zones_query =
        Some [''start_tsc'', ''end_tsc'', ''depth'', ''line'', ''flags'', ''thread_id'',
              ''process_id'', ''lock_ptr'', ''fullname_id_text'', ''filename_id_text'',
              ''path_id_text'']"
    by (rule dump_zones_header)
  show "hd write_zones_keys = ''fullname_id_text''"
    by (simp add: write_zones_keys_def)
qed

theorem text_columns_renamed_witness:
  "list_all plain_name ([''thread_id'', ''depth''] @ [''fullname_id'', ''path_id''])
   \<and> result_column_names
        (build_query_string ''tmzones'' [''thread_id'', ''depth''] [''fullname_id'', ''path_id''] [])
       = Some [''thread_id'', ''depth'', ''fullname_id_text'', ''path_id_text'']
   \<and> result_column_name (text_item 0 ''fullname_id'') = ''fullname_id_text''"
proof -
  have p: "\<forall>n \<in> set ([''thread_id'', ''depth''] @ [''fullname_id'', ''path_id'']). plain_name n"
    by (simp add: plain_name_def)
  from text_columns_renamed [of 0 "''fullname_id''" "[''fullname_id'', ''path_id'']"
      "[''thread_id'', ''depth'']" "''tmzones''" "[]"] p
  show ?thesis by (simp add: list_all_iff)
qed

text \<open>
  Claim C5, evaluated where the code departs from it. With no text columns the builder
  still writes the comma that separates the two parts of the select list, so that the
  comma stands directly before \<^verbatim>\<open>FROM\<close>: the select list ends in an empty item and
  the statement is no projection of the plain columns.
\<close>

theorem zero_text_columns_dangling_comma:
  "build_query_string table normal_columns [] filter_clause
     = ''SELECT '' @ normal_part normal_columns @ '',  FROM '' @ table @ ''  '' @ filter_clause
   \<and> build_query_string ''tmzones'' [''start_tsc'', ''end_tsc''] [] []
     = ''SELECT start_tsc, end_tsc,  FROM tmzones  ''
   \<and> result_column_names (build_query_string ''tmzones'' [''start_tsc'', ''end_tsc''] [] [])
     = Some [''start_tsc'', ''end_tsc'', []]"
proof (intro conjI)
  show "build_query_string table normal_columns [] filter_clause
     = ''SELECT '' @ normal_part normal_columns @ '',  FROM '' @ table @ ''  '' @ filter_clause"
    by (simp add: query_defs)
  show q: "build_query_string ''tmzones'' [''start_tsc'', ''end_tsc''] [] []
     = ''SELECT start_tsc, end_tsc,  FROM tmzones  ''"
    by (simp add: query_defs)
  show "result_column_names (build_query_string ''tmzones'' [''start_tsc'', ''end_tsc''] [] [])
     = Some [''start_tsc'', ''end_tsc'', []]"
    unfolding q by (simp add: result_column_names_def select_list_def result_column_name_def)
qed

end
